theory Spec2Isabelle
  imports Main "HOL-Library.Sublist"
begin

section \<open>Python values used by the pipeline\<close>

text \<open>
  A Python \<open>str\<close> is modelled as a \<^typ>\<open>string\<close>: a list of characters with code points
  below 256. Python's unbounded \<open>int\<close> is \<^typ>\<open>int\<close>. Exceptions are values of
  \<open>py_error\<close>; a raising function returns \<open>Inl\<close> of one.
\<close>

datatype py_error =
    IndexError
  | HTTPException int string
  | RuntimeError string
  | ExternalError string

text \<open>\<open>str.isspace\<close> on one character: the white space of Unicode below 256.\<close>

definition py_isspace :: "char \<Rightarrow> bool" where
  "py_isspace c \<longleftrightarrow>
     c \<in> set [CHR 0x09, CHR 0x0A, CHR 0x0B, CHR 0x0C, CHR 0x0D,
              CHR 0x1C, CHR 0x1D, CHR 0x1E, CHR 0x1F, CHR 0x20,
              CHR 0x85, CHR 0xA0]"

text \<open>\<open>str.lower\<close>: \<open>A\<close>..\<open>Z\<close> and the upper-case letters of Latin-1 move up by 32.\<close>

definition lower_char :: "char \<Rightarrow> char" where
  "lower_char c =
     (let n = (of_char c :: nat)
      in if (65 \<le> n \<and> n \<le> 90) \<or> (192 \<le> n \<and> n \<le> 222 \<and> n \<noteq> 215)
         then char_of (n + 32) else c)"

definition lower :: "string \<Rightarrow> string" where
  "lower s = map lower_char s"

text \<open>\<open>str.strip()\<close>: leading and trailing white space removed.\<close>

definition lstrip :: "string \<Rightarrow> string" where
  "lstrip s = dropWhile py_isspace s"

definition rstrip :: "string \<Rightarrow> string" where
  "rstrip s = rev (dropWhile py_isspace (rev s))"

definition strip :: "string \<Rightarrow> string" where
  "strip s = rstrip (lstrip s)"

text \<open>
  \<open>str.split()\<close> without a separator: the maximal runs of characters that are not
  white space, in order; no empty token.
\<close>

fun split_loop :: "string \<Rightarrow> string \<Rightarrow> string list" where
  "split_loop cur [] = (if cur = [] then [] else [cur])"
| "split_loop cur (c # cs) =
     (if py_isspace c
      then (if cur = [] then split_loop [] cs else cur # split_loop [] cs)
      else split_loop (cur @ [c]) cs)"

definition split :: "string \<Rightarrow> string list" where
  "split s = split_loop [] s"

text \<open>\<open>sep.join(xs)\<close>.\<close>

fun join :: "string \<Rightarrow> string list \<Rightarrow> string" where
  "join sep [] = []"
| "join sep [x] = x"
| "join sep (x # y # ys) = x @ sep @ join sep (y # ys)"

text \<open>\<open>k in s\<close> on strings: \<open>k\<close> occurs in \<open>s\<close> as a contiguous substring.\<close>

fun py_in :: "string \<Rightarrow> string \<Rightarrow> bool" where
  "py_in k [] = (k = [])"
| "py_in k (c # cs) = (prefix k (c # cs) \<or> py_in k cs)"

text \<open>
  \<open>xs[i:j]\<close>: a negative bound counts from the end, every bound is clamped to
  \<open>0..len(xs)\<close>, and the slice is empty when the bounds cross.
\<close>

definition py_slice :: "'a list \<Rightarrow> int \<Rightarrow> int \<Rightarrow> 'a list" where
  "py_slice xs i j =
     (let n = int (length xs);
          lo = (if i < 0 then max (i + n) 0 else min i n);
          hi = (if j < 0 then max (j + n) 0 else min j n)
      in take (nat (hi - lo)) (drop (nat lo) xs))"

text \<open>\<open>xs[i]\<close>: a negative index counts from the end; out of range raises.\<close>

definition py_index :: "'a list \<Rightarrow> int \<Rightarrow> py_error + 'a" where
  "py_index xs i =
     (let n = int (length xs); j = (if i < 0 then i + n else i)
      in if 0 \<le> j \<and> j < n then Inr (xs ! nat j) else Inl IndexError)"

text \<open>\<open>str(i)\<close> for an integer, as an f-string formats it.\<close>

definition digit_char :: "nat \<Rightarrow> char" where
  "digit_char d = char_of (48 + d)"

fun str_nat :: "nat \<Rightarrow> string" where
  "str_nat n = (if n < 10 then [digit_char n] else str_nat (n div 10) @ [digit_char (n mod 10)])"

definition str_int :: "int \<Rightarrow> string" where
  "str_int i = (if i < 0 then CHR ''-'' # str_nat (nat (- i)) else str_nat (nat i))"


section \<open>Ingestion: \<open>ingest.py\<close>\<close>

subsection \<open>\<open>chunk_text\<close>\<close>

text \<open>
  The \<open>while\<close> loop of \<open>chunk_text\<close>, with the loop variables \<open>start\<close> and \<open>chunks\<close> as
  arguments. Nothing in the source bounds the number of iterations, so the loop is a
  partial function: \<open>None\<close> means that it never returns.
\<close>

partial_function (option) chunk_loop ::
  "string \<Rightarrow> int \<Rightarrow> int \<Rightarrow> int \<Rightarrow> string list \<Rightarrow> string list option" where
  "chunk_loop text chunk_size overlap start chunks =
     (let n = int (length text) in
      if start < n then
        (let end = min (start + chunk_size) n;
             chunk = py_slice text start end;
             chunks = chunks @ [chunk]
         in if end = n then Some chunks
            else chunk_loop text chunk_size overlap
                   (if end - overlap < 0 then 0 else end - overlap) chunks)
      else Some chunks)"

declare chunk_loop.simps [code]

definition chunk_text :: "string \<Rightarrow> int \<Rightarrow> int \<Rightarrow> string list option" where
  "chunk_text text chunk_size overlap = chunk_loop text chunk_size overlap 0 []"

subsection \<open>\<open>build_corpus\<close>\<close>

record Page =
  p_page :: int
  p_text :: string

record Chunk =
  c_page :: int
  c_chunk_id :: string
  c_text :: string

definition make_chunk :: "Page \<Rightarrow> nat \<times> string \<Rightarrow> Chunk" where
  "make_chunk p = (\<lambda>(idx, ch).
     \<lparr>c_page = p_page p,
      c_chunk_id = ''p'' @ str_int (p_page p) @ ''_c'' @ str_nat idx,
      c_text = strip ch\<rparr>)"

fun build_corpus_loop :: "Page list \<Rightarrow> int \<Rightarrow> int \<Rightarrow> Chunk list \<Rightarrow> Chunk list option" where
  "build_corpus_loop [] chunk_size overlap corpus = Some corpus"
| "build_corpus_loop (p # ps) chunk_size overlap corpus =
     (case chunk_text (p_text p) chunk_size overlap of
        None \<Rightarrow> None
      | Some chunks \<Rightarrow>
          build_corpus_loop ps chunk_size overlap
            (corpus @ map (make_chunk p) (enumerate 0 chunks)))"

definition build_corpus :: "Page list \<Rightarrow> int \<Rightarrow> int \<Rightarrow> Chunk list option" where
  "build_corpus pages chunk_size overlap = build_corpus_loop pages chunk_size overlap []"

section \<open>Conversation memory: \<open>memory.py\<close>\<close>

record SessionState =
  last_topic :: string
  last_user_question :: string
  history :: "string list"

definition SessionState_init :: SessionState where
  "SessionState_init = \<lparr>last_topic = [], last_user_question = [], history = []\<rparr>"

record ConversationMemory =
  sessions :: "string \<rightharpoonup> SessionState"

definition ConversationMemory_init :: ConversationMemory where
  "ConversationMemory_init = \<lparr>sessions = Map.empty\<rparr>"

text \<open>
  \<open>ConversationMemory._get\<close>: the session's state, and the memory with a fresh state
  stored under \<open>session_id\<close> when there was none.
\<close>

definition memory_get :: "ConversationMemory \<Rightarrow> string \<Rightarrow> SessionState \<times> ConversationMemory" where
  "memory_get self session_id =
     (case sessions self session_id of
        None \<Rightarrow> (SessionState_init,
                 self\<lparr>sessions := (sessions self)(session_id \<mapsto> SessionState_init)\<rparr>)
      | Some s \<Rightarrow> (s, self))"

text \<open>\<open>ConversationMemory.update\<close>: the session's state is mutated in place.\<close>

definition update :: "ConversationMemory \<Rightarrow> string \<Rightarrow> string \<Rightarrow> string \<Rightarrow> ConversationMemory" where
  "update self session_id user_question topic =
     (let (s, self) = memory_get self session_id;
          s = s\<lparr>history := history s @ [user_question]\<rparr>;
          s = s\<lparr>last_user_question := user_question\<rparr>;
          s = (if topic \<noteq> [] then s\<lparr>last_topic := topic\<rparr> else s)
      in self\<lparr>sessions := (sessions self)(session_id \<mapsto> s)\<rparr>)"

definition pronouns :: "string list" where
  "pronouns = [''it'', ''that'', ''they'', ''this'', ''those'', ''them'', ''there'', ''here'']"

text \<open>\<open>ConversationMemory.contextualize\<close>: the rewritten question and the memory after the call.\<close>

definition contextualize :: "ConversationMemory \<Rightarrow> string \<Rightarrow> string \<Rightarrow> string \<times> ConversationMemory" where
  "contextualize self session_id user_question =
     (let (s, self) = memory_get self session_id;
          q = strip user_question;
          tokens = split (lower q);
          q = (if length tokens \<le> 5 \<or> list_ex (\<lambda>t. t \<in> set pronouns) tokens
               then (if last_topic s \<noteq> []
                     then q @ '' (context: '' @ last_topic s @ '')''
                     else q)
               else q)
      in (q, self))"

definition kws :: "string list" where
  "kws = [''budget'', ''debt'', ''infrastructure'', ''tax'', ''revenue'',
          ''expenditure'', ''loan'', ''deficit'', ''grant'', ''policy'']"

text \<open>\<open>ConversationMemory.infer_topic\<close>: the \<open>for\<close> loop returns at the first keyword found.\<close>

definition infer_topic :: "string \<Rightarrow> string" where
  "infer_topic user_question =
     (let ql = lower user_question
      in case find (\<lambda>k. py_in k ql) kws of
           Some k \<Rightarrow> k
         | None \<Rightarrow> join '' '' (take 3 (filter (\<lambda>w. length w > 3) (split ql))))"

section \<open>Retrieval: \<open>retriever.py\<close>\<close>

text \<open>
  The settings are read from the environment. The embedding model and the vector index
  are libraries: they are fields of the retriever, over a type \<open>'v\<close> of embeddings and a
  type \<open>'s\<close> of scores. A search of the index gives the row of scores and the row of
  positions, or raises.
\<close>

record Settings =
  CHUNK_SIZE :: int
  CHUNK_OVERLAP :: int
  TOP_K :: int

record 's SearchResult =
  r_score :: 's
  r_page :: int
  r_chunk_id :: string
  r_text :: string

record ('v, 's) Retriever =
  model_encode :: "string \<Rightarrow> 'v"
  index_search :: "'v \<Rightarrow> int \<Rightarrow> py_error + ('s list \<times> int list)"
  store_corpus :: "Chunk list"

text \<open>\<open>a or b\<close> where \<open>a\<close> is an optional integer: \<open>None\<close> and \<open>0\<close> are false.\<close>

definition int_or :: "int option \<Rightarrow> int \<Rightarrow> int" where
  "int_or a b = (case a of None \<Rightarrow> b | Some k \<Rightarrow> if k = 0 then b else k)"

text \<open>The \<open>for\<close> loop of \<open>Retriever.search\<close> over \<open>zip(idxs, scores)\<close>.\<close>

fun search_loop :: "Chunk list \<Rightarrow> (int \<times> 's) list \<Rightarrow> 's SearchResult list
    \<Rightarrow> py_error + 's SearchResult list" where
  "search_loop corpus [] results = Inr results"
| "search_loop corpus ((i, score) # rest) results =
     (if i = - 1 then search_loop corpus rest results
      else case py_index corpus i of
             Inl e \<Rightarrow> Inl e
           | Inr item \<Rightarrow>
               search_loop corpus rest
                 (results @ [\<lparr>r_score = score, r_page = c_page item,
                              r_chunk_id = c_chunk_id item, r_text = c_text item\<rparr>]))"

definition search :: "Settings \<Rightarrow> ('v, 's) Retriever \<Rightarrow> string \<Rightarrow> int option
    \<Rightarrow> py_error + 's SearchResult list" where
  "search settings self query top_k =
     (let top_k = int_or top_k (TOP_K settings);
          q_emb = model_encode self query
      in case index_search self q_emb top_k of
           Inl e \<Rightarrow> Inl e
         | Inr (scores, idxs) \<Rightarrow> search_loop (store_corpus self) (zip idxs scores) [])"

section \<open>Answering: \<open>app.py\<close> and \<open>chatbot.py\<close>\<close>

text \<open>
  Three things come from outside: \<open>fmt3f\<close> formats a score as \<open>:.3f\<close> does,
  \<open>ellipsis\<close> is the mark put after a cut snippet (its characters lie beyond code point
  255), and \<open>call_llm\<close> is the remote summariser, which may raise.
\<close>

definition newline :: string where
  "newline = [CHR 0x0A]"

definition replace_newlines :: "string \<Rightarrow> string" where
  "replace_newlines s = map (\<lambda>c. if c = CHR 0x0A then CHR '' '' else c) s"

text \<open>\<open>ExtractiveAnswerGenerator.generate\<close>.\<close>

definition generate :: "('s \<Rightarrow> string) \<Rightarrow> string \<Rightarrow> string \<Rightarrow> 's SearchResult list \<Rightarrow> string" where
  "generate fmt3f ellipsis question results =
     (if results = [] then ''No relevant information found in the document.''
      else join newline
             ([''Q: '' @ question, [], ''Top matches:''] @
              map (\<lambda>r. let snippet = replace_newlines (strip (r_text r));
                            snippet = (if length snippet > 300
                                       then take 300 snippet @ ellipsis else snippet)
                        in ''- (page '' @ str_int (r_page r) @ '', score '' @
                           fmt3f (r_score r) @ '') '' @ snippet)
                  results))"

record AskReq =
  req_session_id :: string
  req_question :: string
  req_top_k :: "int option"
  req_use_llm :: bool

text \<open>
  \<open>ask\<close>: the endpoint reads the global \<open>retriever\<close> and mutates the global \<open>memory\<close>;
  the result is the response, or the exception raised, and the memory after the call.
\<close>

definition ask ::
  "Settings \<Rightarrow> (string \<Rightarrow> 's SearchResult list \<Rightarrow> py_error + string) \<Rightarrow> ('s \<Rightarrow> string) \<Rightarrow> string
    \<Rightarrow> ('v, 's) Retriever option \<Rightarrow> ConversationMemory \<Rightarrow> AskReq
    \<Rightarrow> (py_error + string \<times> 's SearchResult list) \<times> ConversationMemory" where
  "ask settings call_llm fmt3f ellipsis retriever memory req =
     (case retriever of
        None \<Rightarrow>
          (Inl (HTTPException 400 ''Index not found. Please upload or ingest a PDF first.''),
           memory)
      | Some retr \<Rightarrow>
          (let (q_ctx, memory) = contextualize memory (req_session_id req) (req_question req)
           in case search settings retr q_ctx (Some (int_or (req_top_k req) (TOP_K settings))) of
                Inl e \<Rightarrow> (Inl e, memory)
              | Inr results \<Rightarrow>
                  (let topic = infer_topic (req_question req);
                       memory = update memory (req_session_id req) (req_question req) topic
                   in case (if req_use_llm req then call_llm (req_question req) results
                            else Inr (generate fmt3f ellipsis (req_question req) results)) of
                        Inl e \<Rightarrow> (Inl e, memory)
                      | Inr answer \<Rightarrow> (Inr (answer, results), memory))))"

text \<open>\<open>Chatbot\<close> of the command line, and \<open>Chatbot.answer\<close>.\<close>

record ('v, 's) Chatbot =
  bot_retriever :: "('v, 's) Retriever"
  bot_memory :: ConversationMemory

definition answer ::
  "Settings \<Rightarrow> (string \<Rightarrow> 's SearchResult list \<Rightarrow> py_error + string) \<Rightarrow> ('s \<Rightarrow> string) \<Rightarrow> string
    \<Rightarrow> ('v, 's) Chatbot \<Rightarrow> string \<Rightarrow> string \<Rightarrow> int \<Rightarrow> bool
    \<Rightarrow> (py_error + string) \<times> ('v, 's) Chatbot" where
  "answer settings call_llm fmt3f ellipsis self session_id question top_k use_llm =
     (let (q_ctx, mem) = contextualize (bot_memory self) session_id question;
          self = self\<lparr>bot_memory := mem\<rparr>
      in case search settings (bot_retriever self) q_ctx (Some top_k) of
           Inl e \<Rightarrow> (Inl e, self)
         | Inr results \<Rightarrow>
             (let topic = infer_topic question;
                  self = self\<lparr>bot_memory := update (bot_memory self) session_id question topic\<rparr>
              in if results = []
                 then (Inr ''I couldn't find anything relevant in the document.'', self)
                 else if use_llm
                 then (case call_llm question results of
                         Inl e \<Rightarrow> (Inl e, self)
                       | Inr summary \<Rightarrow>
                           (Inr (''Q: '' @ question @ newline @ newline @ summary @
                                 newline @ newline @ ''---'' @ newline @ ''Sources:'' @ newline @
                                 join newline
                                   (map (\<lambda>r. ''- Page '' @ str_int (r_page r) @ '', score '' @
                                              fmt3f (r_score r)) results)),
                            self))
                 else (Inr (join newline
                              ([''Q: '' @ question, [], ''Top matches:''] @
                               map (\<lambda>r. let snippet = replace_newlines (strip (r_text r));
                                             snippet = (if length snippet > 400
                                                        then take 400 snippet @ ellipsis
                                                        else snippet)
                                         in ''- (page '' @ str_int (r_page r) @ '', score '' @
                                            fmt3f (r_score r) @ '') '' @ snippet)
                                   results)),
                       self)))"

section \<open>Auxiliary notions for the statements\<close>

text \<open>
  The state a session has in a memory: a session that was never referenced has the
  state \<open>_get\<close> would create for it.
\<close>

definition session_state :: "ConversationMemory \<Rightarrow> string \<Rightarrow> SessionState" where
  "session_state m sid = (case sessions m sid of None \<Rightarrow> SessionState_init | Some s \<Rightarrow> s)"

text \<open>
  A sequence of calls on one memory: each call starts from the state the previous one
  left, and the outcomes are collected in order.
\<close>

fun run_queries :: "('m \<Rightarrow> 'r \<Rightarrow> 'o \<times> 'm) \<Rightarrow> 'm \<Rightarrow> 'r list \<Rightarrow> 'o list \<times> 'm" where
  "run_queries step m [] = ([], m)"
| "run_queries step m (r # rs) =
     (let (out, m1) = step m r; (outs, m2) = run_queries step m1 rs
      in (out # outs, m2))"

text \<open>
  The windows the specification describes: from \<open>start\<close>, a window every
  \<open>chunk_size - overlap\<close> characters, the last one being the first that reaches the end
  of a text of \<open>n\<close> characters. Used to name the offsets of the chunks.
\<close>

function window_starts :: "int \<Rightarrow> int \<Rightarrow> int \<Rightarrow> int \<Rightarrow> int list" where
  "window_starts n chunk_size overlap start =
     (if start < n
      then (if start + chunk_size < n \<and> overlap < chunk_size
            then start # window_starts n chunk_size overlap (start + chunk_size - overlap)
            else [start])
      else [])"
  by pat_completeness auto
termination
  by (relation "measure (\<lambda>(n, chunk_size, overlap, start). nat (n - start))") auto

text \<open>
  What a memory must hold for a session after the questions \<open>asked\<close> (pairs of session
  and question, as submitted, in order) were recorded on top of \<open>m\<close>: the history is
  extended by exactly the session's questions, the last question is the last of them,
  and the topic is the last non-empty topic inferred from one of them.
\<close>

definition questions_of :: "(string \<times> string) list \<Rightarrow> string \<Rightarrow> string list" where
  "questions_of asked sid = map snd (filter (\<lambda>(s, q). s = sid) asked)"

definition stores_questions ::
  "ConversationMemory \<Rightarrow> ConversationMemory \<Rightarrow> (string \<times> string) list \<Rightarrow> string \<Rightarrow> bool" where
  "stores_questions m m' asked sid \<longleftrightarrow>
     (let qs = questions_of asked sid;
          old = session_state m sid;
          new = session_state m' sid
      in history new = history old @ qs \<and>
         last_user_question new = last (last_user_question old # qs) \<and>
         last_topic new = last (last_topic old # filter (\<lambda>t. t \<noteq> []) (map infer_topic qs)))"

section \<open>Chunking\<close>

lemma window_eq:
  assumes "0 \<le> s" "s < int (length text)" "0 < cs" "e = min (s + cs) (int (length text))"
  shows "py_slice text s e = take (nat cs) (drop (nat s) text)"
  using assms by (auto simp: py_slice_def Let_def min_def)

declare window_starts.simps [simp del]

lemma chunk_loop_windows:
  assumes "0 < cs" "0 \<le> ov" "ov < cs" "0 \<le> start"
  shows "chunk_loop text cs ov start acc =
         Some (acc @ map (\<lambda>s. take (nat cs) (drop (nat s) text))
                         (window_starts (int (length text)) cs ov start))"
  using assms
proof (induction "int (length text)" cs ov start arbitrary: acc rule: window_starts.induct)
  case (1 cs ov start)
  show ?case
  proof (cases "start < int (length text)")
    case False
    then show ?thesis
      by (subst chunk_loop.simps, subst window_starts.simps) simp
  next
    case True
    note lt = True
    show ?thesis
    proof (cases "start + cs < int (length text)")
      case True
      have nxt: "0 \<le> start + cs - ov" using 1 by simp
      show ?thesis
        apply (subst chunk_loop.simps, subst window_starts.simps)
        using True lt 1(2-) nxt   1(1)[OF lt _ _ _ _ nxt]
        by (simp add: Let_def window_eq [where cs = cs] min_def)
    next
      case False
      then show ?thesis
        apply (subst chunk_loop.simps, subst window_starts.simps)
        using lt 1(2-)
        by (simp add: Let_def window_eq [where cs = cs] min_def)
    qed
  qed
qed


lemma window_starts_bounds:
  "s \<in> set (window_starts n cs ov start) \<Longrightarrow> start \<le> s \<and> s < n"
proof (induction n cs ov start rule: window_starts.induct)
  case (1 n cs ov start)
  show ?case
  proof (cases "start < n \<and> start + cs < n \<and> ov < cs")
    case True
    with 1 show ?thesis
      by (subst (asm) (2) window_starts.simps) (auto split: if_splits)
  next
    case False
    with 1(2) show ?thesis
      by (subst (asm) window_starts.simps) (auto split: if_splits)
  qed
qed

lemma window_starts_sorted: "sorted_wrt (<) (window_starts n cs ov start)"
proof (induction n cs ov start rule: window_starts.induct)
  case (1 n cs ov start)
  show ?case
  proof (cases "start < n \<and> start + cs < n \<and> ov < cs")
    case True
    then have "\<forall>s\<in>set (window_starts n cs ov (start + cs - ov)). start < s"
      using window_starts_bounds [of _ n cs ov "start + cs - ov"] by fastforce
    with True 1 show ?thesis
      by (subst window_starts.simps) simp
  next
    case False
    then show ?thesis
      by (subst window_starts.simps) auto
  qed
qed

lemma window_starts_hd:
  "start < n \<Longrightarrow> window_starts n cs ov start \<noteq> [] \<and> window_starts n cs ov start ! 0 = start"
  by (subst (1 2) window_starts.simps) simp

lemma window_starts_step:
  "Suc j < length (window_starts n cs ov start) \<Longrightarrow>
     window_starts n cs ov start ! Suc j = window_starts n cs ov start ! j + cs - ov \<and>
     window_starts n cs ov start ! j + cs < n"
proof (induction n cs ov start arbitrary: j rule: window_starts.induct)
  case (1 n cs ov start)
  let ?rest = "window_starts n cs ov (start + cs - ov)"
  have rec: "start < n \<and> start + cs < n \<and> ov < cs"
    using 1(2) by (subst (asm) window_starts.simps) (auto split: if_splits)
  then have unf: "window_starts n cs ov start = start # ?rest"
    by (subst window_starts.simps) simp
  show ?case
  proof (cases j)
    case 0
    with 1(2) unf have "?rest \<noteq> []" by auto
    then have "start + cs - ov < n"
      by (subst (asm) window_starts.simps) (auto split: if_splits)
    then have "?rest ! 0 = start + cs - ov"
      using window_starts_hd by blast
    with 0 unf rec show ?thesis by simp
  next
    case (Suc k)
    with 1(2) unf have "Suc k < length ?rest" by simp
    then have "?rest ! Suc k = ?rest ! k + cs - ov \<and> ?rest ! k + cs < n"
      using 1(1) rec by blast
    with Suc unf show ?thesis by simp
  qed
qed

lemma window_starts_cover:
  "0 \<le> ov \<Longrightarrow> ov < cs \<Longrightarrow> start \<le> i \<Longrightarrow> i < n \<Longrightarrow>
     \<exists>s\<in>set (window_starts n cs ov start). s \<le> i \<and> i < s + cs"
proof (induction n cs ov start rule: window_starts.induct)
  case (1 n cs ov start)
  show ?case
  proof (cases "start + cs < n")
    case True
    then have unf: "window_starts n cs ov start = start # window_starts n cs ov (start + cs - ov)"
      using 1(2-) by (subst window_starts.simps) simp
    show ?thesis
    proof (cases "i < start + cs")
      case True
      with unf 1(4) show ?thesis by auto
    next
      case False
      then have "start + cs - ov \<le> i" using 1(2) by simp
      then have "\<exists>s\<in>set (window_starts n cs ov (start + cs - ov)). s \<le> i \<and> i < s + cs"
        using 1 True by simp
      with unf show ?thesis by auto
    qed
  next
    case False
    then have "window_starts n cs ov start = [start]"
      using 1(2-) by (subst window_starts.simps) simp
    with False 1(2-) show ?thesis by simp
  qed
qed


text \<open>
  Claim C1. For every text, every \<open>chunk_size > 0\<close> and every \<open>overlap\<close> with
  \<open>0 \<le> overlap < chunk_size\<close>, \<open>chunk_text\<close> returns, and its chunks are the windows of
  the text at offsets \<open>starts\<close> such that: the offsets increase strictly; every chunk but
  the last has exactly \<open>chunk_size\<close> characters; each chunk starts \<open>chunk_size - overlap\<close>
  after the one before, whose last \<open>overlap\<close> characters are its first \<open>overlap\<close>
  characters; every character of the text lies in some chunk, at its place; and a
  non-empty text gives at least one chunk.
\<close>

theorem chunk_text_coverage:
  assumes "0 < chunk_size" "0 \<le> overlap" "overlap < chunk_size"
  shows "\<exists>starts chunks.
    chunk_text text chunk_size overlap = Some chunks \<and>
    length chunks = length starts \<and>
    (\<forall>j<length starts.
        0 \<le> starts ! j \<and> starts ! j < int (length text) \<and>
        chunks ! j = py_slice text (starts ! j) (min (starts ! j + chunk_size) (int (length text)))) \<and>
    sorted_wrt (<) starts \<and>
    (\<forall>j. Suc j < length chunks \<longrightarrow>
        length (chunks ! j) = nat chunk_size \<and>
        starts ! Suc j = starts ! j + chunk_size - overlap \<and>
        drop (nat (chunk_size - overlap)) (chunks ! j) = take (nat overlap) (chunks ! Suc j)) \<and>
    (\<forall>i<length text. \<exists>j<length starts.
        starts ! j \<le> int i \<and> int i < starts ! j + int (length (chunks ! j)) \<and>
        chunks ! j ! (i - nat (starts ! j)) = text ! i) \<and>
    (text \<noteq> [] \<longrightarrow> chunks \<noteq> [])"
proof -
  define n where "n = int (length text)"
  define starts where "starts = window_starts n chunk_size overlap 0"
  define win where "win = (\<lambda>s. take (nat chunk_size) (drop (nat s) text))"
  define chunks where "chunks = map win starts"
  have ret: "chunk_text text chunk_size overlap = Some chunks"
    using chunk_loop_windows [OF assms, of 0 "text" "[]"]
    by (simp add: chunk_text_def chunks_def starts_def win_def n_def)
  have len: "length chunks = length starts"
    by (simp add: chunks_def)
  have bounds: "0 \<le> starts ! j \<and> starts ! j < n" if "j < length starts" for j
    using window_starts_bounds [of "starts ! j" n chunk_size overlap 0] that
    by (simp add: starts_def)
  have nth: "chunks ! j = win (starts ! j)" if "j < length starts" for j
    using that by (simp add: chunks_def)
  have slice: "chunks ! j = py_slice text (starts ! j) (min (starts ! j + chunk_size) n)"
    if "j < length starts" for j
    using bounds [OF that] nth [OF that] assms(1)
      window_eq [of "starts ! j" "text" chunk_size "min (starts ! j + chunk_size) n"]
    by (simp add: win_def n_def)
  have sorted: "sorted_wrt (<) starts"
    by (simp add: starts_def window_starts_sorted)
  have step: "starts ! Suc j = starts ! j + chunk_size - overlap \<and> starts ! j + chunk_size < n"
    if "Suc j < length starts" for j
    using window_starts_step [of j n chunk_size overlap 0] that
    by (simp add: starts_def)
  have full: "length (chunks ! j) = nat chunk_size" if "Suc j < length chunks" for j
  proof -
    have "j < length starts" "Suc j < length starts" using that len by simp_all
    then show ?thesis
      using step [of j] bounds [of j] nth [of j] assms(1)
      by (simp add: win_def n_def min_def) linarith
  qed
  have ovl: "drop (nat (chunk_size - overlap)) (chunks ! j) = take (nat overlap) (chunks ! Suc j)"
    if "Suc j < length chunks" for j
  proof -
    have j: "j < length starts" "Suc j < length starts" using that len by simp_all
    have "nat (chunk_size - overlap) + nat (starts ! j) = nat (starts ! Suc j)"
      using step [OF j(2)] bounds [OF j(1)] assms by simp
    moreover have "nat chunk_size - nat (chunk_size - overlap) = nat overlap"
      using assms by simp
    moreover have "min (nat overlap) (nat chunk_size) = nat overlap"
      using assms by simp
    ultimately show ?thesis
      using nth [OF j(1)] nth [OF j(2)]
      by (simp add: win_def drop_take min.commute)
  qed
  have cover: "\<exists>j<length starts.
        starts ! j \<le> int i \<and> int i < starts ! j + int (length (chunks ! j)) \<and>
        chunks ! j ! (i - nat (starts ! j)) = text ! i" if "i < length text" for i
  proof -
    have "\<exists>s\<in>set starts. s \<le> int i \<and> int i < s + chunk_size"
      using window_starts_cover [of overlap chunk_size 0 "int i" n] assms that
      by (simp add: starts_def n_def)
    then obtain j where j: "j < length starts" "starts ! j \<le> int i" "int i < starts ! j + chunk_size"
      by (auto simp: in_set_conv_nth)
    have b: "0 \<le> starts ! j" using bounds [OF j(1)] by simp
    have off: "i - nat (starts ! j) < nat chunk_size" using j b by linarith
    have ge: "nat (starts ! j) \<le> i" using j b by linarith
    have "length (chunks ! j) = min (length text - nat (starts ! j)) (nat chunk_size)"
      using nth [OF j(1)] by (simp add: win_def)
    then have "int i < starts ! j + int (length (chunks ! j))"
      using that off ge b by (simp add: min_def) linarith
    moreover have "chunks ! j ! (i - nat (starts ! j)) = text ! i"
      using nth [OF j(1)] off ge that by (simp add: win_def)
    ultimately show ?thesis using j by blast
  qed
  have nonempty: "text \<noteq> [] \<longrightarrow> chunks \<noteq> []"
    using window_starts_hd [of 0 n chunk_size overlap]
    by (auto simp: chunks_def starts_def n_def)
  have c3: "\<forall>j<length starts.
        0 \<le> starts ! j \<and> starts ! j < int (length text) \<and>
        chunks ! j = py_slice text (starts ! j) (min (starts ! j + chunk_size) (int (length text)))"
    using bounds slice by (simp add: n_def)
  have c5: "\<forall>j. Suc j < length chunks \<longrightarrow>
        length (chunks ! j) = nat chunk_size \<and>
        starts ! Suc j = starts ! j + chunk_size - overlap \<and>
        drop (nat (chunk_size - overlap)) (chunks ! j) = take (nat overlap) (chunks ! Suc j)"
    using full step ovl len by simp
  have c6: "\<forall>i<length text. \<exists>j<length starts.
        starts ! j \<le> int i \<and> int i < starts ! j + int (length (chunks ! j)) \<and>
        chunks ! j ! (i - nat (starts ! j)) = text ! i"
    using cover by simp
  show ?thesis
    by (intro exI [of _ starts] exI [of _ chunks] conjI ret len c3 sorted c5 c6 nonempty)
qed




theorem chunk_text_coverage_witness:
  "(0::int) < 10 \<and> (0::int) \<le> 2 \<and> (2::int) < 10 \<and>
   (\<exists>(starts :: int list) chunks.
      chunk_text ''abcdefghijklmnopqrstuvwxyz'' 10 2 = Some chunks \<and>
      chunks = [''abcdefghij'', ''ijklmnopqr'', ''qrstuvwxyz''] \<and>
      length chunks = length starts \<and>
      sorted_wrt (<) starts)"
proof -
  have pre: "(0::int) < 10" "(0::int) \<le> 2" "(2::int) < 10"
    by simp_all
  have val: "chunk_text ''abcdefghijklmnopqrstuvwxyz'' 10 2 =
      Some [''abcdefghij'', ''ijklmnopqr'', ''qrstuvwxyz'']"
    by code_simp
  from chunk_text_coverage [OF pre, of "''abcdefghijklmnopqrstuvwxyz''"]
  have "\<exists>(starts :: int list) chunks.
      chunk_text ''abcdefghijklmnopqrstuvwxyz'' 10 2 = Some chunks \<and>
      length chunks = length starts \<and> sorted_wrt (<) starts"
    by - (elim exE conjE, intro exI conjI, assumption+)
  then obtain starts :: "int list" and chunks where
    h1: "chunk_text ''abcdefghijklmnopqrstuvwxyz'' 10 2 = Some chunks" and
    h2: "length chunks = length starts" and
    h3: "sorted_wrt (<) starts"
    by - (elim exE conjE)
  from h1 val have h4: "chunks = [''abcdefghij'', ''ijklmnopqr'', ''qrstuvwxyz'']"
    by (simp only: option.inject)
  show ?thesis
    by (intro conjI pre exI [of _ starts] exI [of _ chunks] h1 h2 h3 h4)
qed

subsection \<open>An overlap that is not below the chunk size\<close>

text \<open>
  When \<open>overlap \<ge> chunk_size\<close> and the window does not reach the end of the text, the next
  start is not after the current one, so the loop never leaves that state.
\<close>

lemma chunk_loop_no_progress:
  assumes "chunk_loop text cs ov start acc = Some y"
  shows "\<not> (0 < cs \<and> cs \<le> ov \<and> 0 \<le> start \<and> start + cs < int (length text))"
proof (rule chunk_loop.raw_induct
    [where P = "\<lambda>doc cs ov start acc y.
       \<not> (0 < cs \<and> cs \<le> ov \<and> 0 \<le> start \<and> start + cs < int (length doc))",
     OF _ assms])
  fix loop :: "string \<Rightarrow> int \<Rightarrow> int \<Rightarrow> int \<Rightarrow> string list \<Rightarrow> string list option"
  fix doc cs ov start acc y
  assume IH: "\<And>doc cs ov start acc y. loop doc cs ov start acc = Some y \<Longrightarrow>
      \<not> (0 < cs \<and> cs \<le> ov \<and> 0 \<le> start \<and> start + cs < int (length doc))"
  assume body: "(let n = int (length doc) in
      if start < n then
        (let end = min (start + cs) n;
             chunk = py_slice doc start end;
             chunks = acc @ [chunk]
         in if end = n then Some chunks
            else loop doc cs ov (if end - ov < 0 then 0 else end - ov) chunks)
      else Some acc) = Some y"
  show "\<not> (0 < cs \<and> cs \<le> ov \<and> 0 \<le> start \<and> start + cs < int (length doc))"
  proof
    assume a: "0 < cs \<and> cs \<le> ov \<and> 0 \<le> start \<and> start + cs < int (length doc)"
    let ?next = "if start + cs - ov < 0 then 0 else start + cs - ov"
    from a body have "loop doc cs ov ?next (acc @ [py_slice doc start (start + cs)]) = Some y"
      by (simp add: Let_def min_def split: if_splits)
    moreover from a have "0 \<le> ?next \<and> ?next + cs < int (length doc)"
      by auto
    ultimately show False using IH a by blast
  qed
qed

lemma chunk_text_diverges:
  assumes "0 < cs" "cs \<le> ov" "cs < int (length text)"
  shows "chunk_text text cs ov = None"
proof (cases "chunk_text text cs ov")
  case None
  then show ?thesis .
next
  case (Some y)
  then show ?thesis
    using chunk_loop_no_progress [of "text" cs ov 0 "[]" y] assms
    by (simp add: chunk_text_def)
qed

lemma chunk_text_one_window:
  assumes "0 < cs" "int (length text) \<le> cs"
  shows "chunk_text text cs ov = Some (if text = [] then [] else [text])"
  using assms
  by (subst chunk_text_def, subst chunk_loop.simps) (simp add: Let_def py_slice_def min_def)

text \<open>
  Claim C4, as the code has it. \<open>chunk_text\<close> validates nothing and raises nothing: with
  \<open>chunk_size > 0\<close> and \<open>overlap \<ge> chunk_size\<close>, a text of at most \<open>chunk_size\<close> characters
  is returned as it is, in one chunk (no chunk when the text is empty).
\<close>

theorem chunk_text_no_validation:
  assumes "0 < chunk_size" "chunk_size \<le> overlap" "int (length text) \<le> chunk_size"
  shows "chunk_text text chunk_size overlap = Some (if text = [] then [] else [text])"
  using assms(1,3) by (rule chunk_text_one_window)

theorem chunk_text_no_validation_witness:
  "(0::int) < 3 \<and> (3::int) \<le> 5 \<and> int (length ''abc'') \<le> 3 \<and>
   chunk_text ''abc'' 3 5 = Some [''abc'']"
  using chunk_text_no_validation [of 3 5 "''abc''"] by simp

text \<open>
  Against claim C4 as stated: with \<open>chunk_size = overlap = 1\<close> the call on \<open>"a"\<close> is not
  rejected, it returns \<open>["a"]\<close>; and the call on \<open>"ab"\<close> never returns.
\<close>

theorem chunk_text_overlap_not_rejected:
  "chunk_text ''a'' 1 1 = Some [''a''] \<and> chunk_text ''ab'' 1 1 = None"
proof
  show "chunk_text ''a'' 1 1 = Some [''a'']"
    by code_simp
  show "chunk_text ''ab'' 1 1 = None"
    by (rule chunk_text_diverges) simp_all
qed

section \<open>Strings\<close>

lemma py_isspace_code:
  "py_isspace c \<Longrightarrow> (of_char c :: nat) \<in> {9, 10, 11, 12, 13, 28, 29, 30, 31, 32, 133, 160}"
  by (auto simp: py_isspace_def)

lemma lower_char_space: "py_isspace c \<Longrightarrow> lower_char c = c"
  by (auto simp: py_isspace_def lower_char_def)

lemma py_isspace_lower_char: "py_isspace (lower_char c) = py_isspace c"
proof (cases "py_isspace c")
  case True
  then show ?thesis by (simp add: lower_char_space)
next
  case False
  define n where "n = (of_char c :: nat)"
  show ?thesis
  proof (cases "(65 \<le> n \<and> n \<le> 90) \<or> (192 \<le> n \<and> n \<le> 222 \<and> n \<noteq> 215)")
    case True
    then have l: "lower_char c = char_of (n + 32)"
      by (simp add: lower_char_def n_def)
    have "n + 32 < 256" using True by auto
    then have "(of_char (lower_char c) :: nat) = n + 32"
      unfolding l by (simp add: of_char_of)
    then have "\<not> py_isspace (lower_char c)"
      using True py_isspace_code [of "lower_char c"] by auto
    with False show ?thesis by simp
  next
    case False
    then have "lower_char c = c"
      unfolding lower_char_def n_def by (auto simp: Let_def)
    then show ?thesis by simp
  qed
qed

lemma split_loop_lower:
  "split_loop (map lower_char cur) (map lower_char s) = map (map lower_char) (split_loop cur s)"
proof (induction s arbitrary: cur)
  case Nil
  then show ?case by simp
next
  case (Cons c s)
  show ?case
    using Cons [of "[]"] Cons [of "cur @ [c]"]
    by (simp add: py_isspace_lower_char)
qed

lemma split_lower: "split (lower s) = map lower (split s)"
  using split_loop_lower [of "[]" s] by (simp add: split_def lower_def [abs_def])

lemma split_loop_lstrip: "split_loop [] (dropWhile py_isspace s) = split_loop [] s"
  by (induction s) simp_all

lemma split_loop_spaces: "\<forall>c\<in>set ws. py_isspace c \<Longrightarrow> split_loop [] ws = []"
  by (induction ws) simp_all

lemma split_loop_trailing:
  "\<forall>c\<in>set ws. py_isspace c \<Longrightarrow> split_loop cur (xs @ ws) = split_loop cur xs"
proof (induction xs arbitrary: cur)
  case Nil
  then show ?case by (cases ws) (simp_all add: split_loop_spaces)
next
  case (Cons x xs)
  then show ?case by simp
qed

lemma rstrip_decomp:
  "rstrip s @ rev (takeWhile py_isspace (rev s)) = s"
proof -
  have "rstrip s @ rev (takeWhile py_isspace (rev s)) =
        rev (takeWhile py_isspace (rev s) @ dropWhile py_isspace (rev s))"
    by (simp only: rstrip_def rev_append)
  also have "\<dots> = s"
    by (simp only: takeWhile_dropWhile_id rev_rev_ident)
  finally show ?thesis .
qed

lemma split_rstrip: "split (rstrip s) = split s"
proof -
  have "\<forall>c\<in>set (rev (takeWhile py_isspace (rev s))). py_isspace c"
    by (auto dest: set_takeWhileD)
  then have "split_loop [] (rstrip s @ rev (takeWhile py_isspace (rev s))) = split_loop [] (rstrip s)"
    by (rule split_loop_trailing)
  then show ?thesis
    using rstrip_decomp [of s] by (simp add: split_def)
qed

lemma split_strip: "split (strip s) = split s"
  by (simp add: strip_def split_rstrip) (simp add: split_def lstrip_def split_loop_lstrip)

lemma split_lower_strip: "split (lower (strip s)) = split (lower s)"
  by (simp add: split_lower split_strip)

section \<open>Conversation memory\<close>

lemma memory_get_state: "fst (memory_get m sid) = session_state m sid"
  by (simp add: memory_get_def session_state_def split: option.splits)

lemma memory_get_stored: "sessions (snd (memory_get m sid)) sid = Some (session_state m sid)"
  by (simp add: memory_get_def session_state_def split: option.splits)

lemma memory_get_session_state: "session_state (snd (memory_get m sid)) sid' = session_state m sid'"
  by (simp add: memory_get_def session_state_def split: option.splits)

lemma contextualize_memory: "snd (contextualize m sid q) = snd (memory_get m sid)"
  by (simp add: contextualize_def Let_def split: prod.splits)

text \<open>
  Claim C3, as the code has it. \<open>contextualize\<close> returns the question stripped of leading
  and trailing white space, followed by \<open>" (context: <last_topic>)"\<close> when the session's
  \<open>last_topic\<close> is not empty and the question, lower-cased and split at white space, has
  at most five tokens or a token among the pronouns; it returns the stripped question
  alone in every other case.
\<close>

theorem contextualize_result:
  "fst (contextualize m sid q) =
     (let tokens = split (lower q); topic = last_topic (session_state m sid)
      in if (length tokens \<le> 5 \<or> (\<exists>t\<in>set tokens. t \<in> set pronouns)) \<and> topic \<noteq> []
         then strip q @ '' (context: '' @ topic @ '')''
         else strip q)"
proof -
  obtain s m1 where g: "memory_get m sid = (s, m1)"
    by (cases "memory_get m sid")
  then have s: "s = session_state m sid"
    using memory_get_state [of m sid] by simp
  show ?thesis
    by (simp add: contextualize_def g s Let_def split_lower_strip list_ex_iff)
qed

theorem contextualize_result_witness:
  "fst (contextualize
          \<lparr>sessions = [''s1'' \<mapsto> \<lparr>last_topic = ''budget'',
                                   last_user_question = ''What is the budget?'',
                                   history = [''What is the budget?'']\<rparr>]\<rparr>
          ''s1'' ''what about it?'') = ''what about it? (context: budget)'' \<and>
   fst (contextualize
          \<lparr>sessions = [''s1'' \<mapsto> \<lparr>last_topic = ''budget'',
                                   last_user_question = ''What is the budget?'',
                                   history = [''What is the budget?'']\<rparr>]\<rparr>
          ''s1'' ''how much money was spent on roads'') = ''how much money was spent on roads''"
  by (subst (1 2) contextualize_result) code_simp

text \<open>
  Against claim C3 as stated: a question of six tokens, none of them a pronoun, that
  begins with a space is not returned unchanged; the space is stripped.
\<close>

theorem contextualize_not_unchanged:
  "length (split (lower '' one two three four five six'')) = 6 \<and>
   \<not> list_ex (\<lambda>t. t \<in> set pronouns) (split (lower '' one two three four five six'')) \<and>
   fst (contextualize ConversationMemory_init ''s1'' '' one two three four five six'')
     \<noteq> '' one two three four five six''"
  by code_simp

text \<open>
  Claim C5, as the code has it. \<open>contextualize\<close> leaves the memory as it is when the session
  is known, and otherwise stores a fresh empty state under the session identifier; no
  entry that was there changes, and the state of every session (with a session never
  seen counted as empty) is the same after the call.
\<close>

theorem contextualize_frame:
  "snd (contextualize m sid q) =
     (if sid \<in> dom (sessions m) then m
      else m\<lparr>sessions := (sessions m)(sid \<mapsto> SessionState_init)\<rparr>) \<and>
   (\<forall>s\<in>dom (sessions m). sessions (snd (contextualize m sid q)) s = sessions m s) \<and>
   (\<forall>s. session_state (snd (contextualize m sid q)) s = session_state m s)"
  by (auto simp: contextualize_memory memory_get_session_state)
     (auto simp: memory_get_def split: option.splits)

theorem contextualize_frame_witness:
  "snd (contextualize
          \<lparr>sessions = [''s1'' \<mapsto> \<lparr>last_topic = ''budget'',
                                   last_user_question = ''What is the budget?'',
                                   history = [''What is the budget?'']\<rparr>]\<rparr>
          ''s1'' ''what about it?'') =
     \<lparr>sessions = [''s1'' \<mapsto> \<lparr>last_topic = ''budget'',
                              last_user_question = ''What is the budget?'',
                              history = [''What is the budget?'']\<rparr>]\<rparr> \<and>
   ''s1'' \<in> dom [''s1'' \<mapsto> \<lparr>last_topic = ''budget'',
                              last_user_question = ''What is the budget?'',
                              history = [''What is the budget?'']\<rparr>]"
  using contextualize_frame
      [of "\<lparr>sessions = [''s1'' \<mapsto> \<lparr>last_topic = ''budget'',
                              last_user_question = ''What is the budget?'',
                              history = [''What is the budget?'']\<rparr>]\<rparr>" "''s1''" "''what about it?''"]
  by simp

text \<open>
  Against claim C5 as stated: on a memory without sessions, the call leaves a memory
  with one.
\<close>

theorem contextualize_creates_session:
  "snd (contextualize ConversationMemory_init ''s1'' ''hello'') \<noteq> ConversationMemory_init"
proof
  assume "snd (contextualize ConversationMemory_init ''s1'' ''hello'') = ConversationMemory_init"
  then have "sessions (snd (memory_get ConversationMemory_init ''s1'')) ''s1'' =
      sessions ConversationMemory_init ''s1''"
    by (simp add: contextualize_memory)
  then show False
    by (simp add: memory_get_stored) (simp add: ConversationMemory_init_def)
qed

lemma session_state_update:
  "session_state (update m sid q t) sid' =
     (if sid' = sid
      then (session_state m sid)
             \<lparr>last_topic := (if t \<noteq> [] then t else last_topic (session_state m sid)),
              last_user_question := q,
              history := history (session_state m sid) @ [q]\<rparr>
      else session_state m sid')"
  using memory_get_state [of m sid] memory_get_session_state [of m sid sid']
  by (auto simp: update_def Let_def session_state_def split: prod.splits)

section \<open>The query pipeline and the memory\<close>

lemma stores_questions_refl: "stores_questions m m [] sid"
  by (simp add: stores_questions_def questions_of_def)

lemma last_cons_append: "last (x # xs @ ys) = last (last (x # xs) # ys)"
  by (cases ys) simp_all

lemma stores_questions_trans:
  assumes "stores_questions m m1 a sid" "stores_questions m1 m2 b sid"
  shows "stores_questions m m2 (a @ b) sid"
  using assms
  by (simp add: stores_questions_def questions_of_def Let_def last_cons_append
      del: last.simps)

lemma stores_questions_step:
  "stores_questions m (update (snd (contextualize m s q)) s q (infer_topic q)) [(s, q)] sid"
  by (simp add: stores_questions_def questions_of_def session_state_update
      contextualize_memory memory_get_session_state)

lemma run_queries_stores:
  assumes step: "\<And>st r out st'. step st r = (out, st') \<Longrightarrow> \<not> isl out \<Longrightarrow>
      mem st' = update (snd (contextualize (mem st) (fst (key r)) (snd (key r))))
                  (fst (key r)) (snd (key r)) (infer_topic (snd (key r)))"
  shows "run_queries step st reqs = (outs, st') \<Longrightarrow> \<forall>out\<in>set outs. \<not> isl out \<Longrightarrow>
      stores_questions (mem st) (mem st') (map key reqs) sid"
proof (induction reqs arbitrary: st outs)
  case Nil
  then show ?case by (simp add: stores_questions_refl)
next
  case (Cons r rs)
  obtain out st1 where s1: "step st r = (out, st1)"
    by (cases "step st r")
  obtain outs1 st2 where s2: "run_queries step st1 rs = (outs1, st2)"
    by (cases "run_queries step st1 rs")
  from Cons.prems(1) s1 s2 have eq: "outs = out # outs1" "st' = st2"
    by simp_all
  with Cons.prems(2) have ok: "\<not> isl out" "\<forall>out\<in>set outs1. \<not> isl out"
    by simp_all
  have "stores_questions (mem st) (mem st1) [key r] sid"
    using step [OF s1 ok(1)] stores_questions_step [of "mem st" "fst (key r)" "snd (key r)" sid]
    by simp
  moreover have "stores_questions (mem st1) (mem st') (map key rs) sid"
    using Cons.IH [OF s2 [folded eq(2)] ok(2)] .
  ultimately have "stores_questions (mem st) (mem st') ([key r] @ map key rs) sid"
    by (rule stores_questions_trans)
  then show ?case by simp
qed

lemma ask_memory:
  assumes "ask settings call_llm fmt3f ellipsis retr m r = (out, m')" "\<not> isl out"
  shows "m' = update (snd (contextualize m (req_session_id r) (req_question r)))
                (req_session_id r) (req_question r) (infer_topic (req_question r))"
  using assms
  by (auto simp: ask_def Let_def split: option.splits sum.splits prod.splits if_splits)

lemma answer_memory:
  assumes "answer settings call_llm fmt3f ellipsis cb s q k llm = (out, cb')" "\<not> isl out"
  shows "bot_memory cb' = update (snd (contextualize (bot_memory cb) s q)) s q (infer_topic q)"
  using assms
  by (auto simp: answer_def Let_def split: option.splits sum.splits prod.splits if_splits)

text \<open>
  Claim C10. After any sequence of answered queries, through the \<open>ask\<close> endpoint or
  through \<open>Chatbot.answer\<close>, every session's history is its history before followed by
  the questions exactly as they were submitted, its \<open>last_user_question\<close> is the last of
  them, and its \<open>last_topic\<close> is inferred from one of them: the rewritten question, with
  its context suffix, is stored nowhere.
\<close>

theorem memory_stores_original_questions:
  "(run_queries (ask settings call_llm fmt3f ellipsis (retr :: ('v, 's) Retriever option)) m reqs
      = (outs, m') \<longrightarrow>
    (\<forall>out\<in>set outs. \<not> isl out) \<longrightarrow>
    stores_questions m m' (map (\<lambda>r. (req_session_id r, req_question r)) reqs) sid) \<and>
   (run_queries (\<lambda>cb (s, q, k, llm). answer settings call_llm fmt3f ellipsis cb s q k llm)
      (cb :: ('v, 's) Chatbot) calls = (outs2, cb') \<longrightarrow>
    (\<forall>out\<in>set outs2. \<not> isl out) \<longrightarrow>
    stores_questions (bot_memory cb) (bot_memory cb') (map (\<lambda>(s, q, k, llm). (s, q)) calls) sid)"
proof (intro conjI impI)
  assume "run_queries (ask settings call_llm fmt3f ellipsis retr) m reqs = (outs, m')"
    and "\<forall>out\<in>set outs. \<not> isl out"
  then show "stores_questions m m' (map (\<lambda>r. (req_session_id r, req_question r)) reqs) sid"
    using run_queries_stores [where mem = "\<lambda>m. m" and step = "ask settings call_llm fmt3f ellipsis retr"
        and key = "\<lambda>r. (req_session_id r, req_question r)"]
    by (simp add: ask_memory)
next
  assume run: "run_queries (\<lambda>cb (s, q, k, llm). answer settings call_llm fmt3f ellipsis cb s q k llm)
      cb calls = (outs2, cb')"
    and ok: "\<forall>out\<in>set outs2. \<not> isl out"
  have step: "bot_memory st' =
      update (snd (contextualize (bot_memory st) (fst ((\<lambda>(s, q, k, llm). (s, q)) r))
                (snd ((\<lambda>(s, q, k, llm). (s, q)) r))))
        (fst ((\<lambda>(s, q, k, llm). (s, q)) r)) (snd ((\<lambda>(s, q, k, llm). (s, q)) r))
        (infer_topic (snd ((\<lambda>(s, q, k, llm). (s, q)) r)))"
    if "(\<lambda>cb (s, q, k, llm). answer settings call_llm fmt3f ellipsis cb s q k llm) st r = (out, st')"
      and "\<not> isl out"
    for st :: "('v, 's) Chatbot" and r :: "string \<times> string \<times> int \<times> bool" and out st'
    using that by (cases r) (simp add: answer_memory)
  show "stores_questions (bot_memory cb) (bot_memory cb')
      (map (\<lambda>(s, q, k, llm). (s, q)) calls) sid"
    by (rule run_queries_stores [where mem = bot_memory, OF step run ok])
qed

theorem memory_stores_original_questions_witness:
  "(let settings = \<lparr>CHUNK_SIZE = 1000, CHUNK_OVERLAP = 200, TOP_K = 3\<rparr>;
        retr = \<lparr>model_encode = (\<lambda>q. length q),
                index_search = (\<lambda>v k. Inr ([9 :: int, 0, 0], [0, - 1, - 1])),
                store_corpus =
                  [\<lparr>c_page = 1, c_chunk_id = ''p1_c0'', c_text = ''the tax rate is 5''\<rparr>]\<rparr>;
        step = ask settings (\<lambda>q rs. Inr ''summary'') (\<lambda>s. ''0.900'') ''...'' (Some retr);
        reqs = [\<lparr>req_session_id = ''s1'', req_question = ''What is the tax rate?'',
                 req_top_k = None, req_use_llm = False\<rparr>,
                \<lparr>req_session_id = ''s1'', req_question = ''what about it?'',
                 req_top_k = Some 2, req_use_llm = True\<rparr>];
        R = run_queries step ConversationMemory_init reqs;
        step2 = (\<lambda>cb (s, q, k, llm).
                   answer settings (\<lambda>q rs. Inr ''summary'') (\<lambda>s. ''0.900'') ''...'' cb s q k llm);
        calls = [(''s1'', ''What is the tax rate?'', 3, False), (''s1'', ''what about it?'', 3, False)];
        R2 = run_queries step2 \<lparr>bot_retriever = retr, bot_memory = ConversationMemory_init\<rparr> calls
    in (\<forall>out\<in>set (fst R). \<not> isl out) \<and>
       fst (contextualize (snd (step ConversationMemory_init (hd reqs))) ''s1'' ''what about it?'')
         = ''what about it? (context: tax)'' \<and>
       history (session_state (snd R) ''s1'') = [''What is the tax rate?'', ''what about it?''] \<and>
       last_user_question (session_state (snd R) ''s1'') = ''what about it?'' \<and>
       last_topic (session_state (snd R) ''s1'') = ''what about'' \<and>
       (\<forall>out\<in>set (fst R2). \<not> isl out) \<and>
       history (session_state (bot_memory (snd R2)) ''s1'')
         = [''What is the tax rate?'', ''what about it?''])"
proof -
  define settings where "settings = \<lparr>CHUNK_SIZE = 1000, CHUNK_OVERLAP = 200, TOP_K = 3\<rparr>"
  define retr :: "(nat, int) Retriever" where
    "retr = \<lparr>model_encode = (\<lambda>q. length q),
             index_search = (\<lambda>v k. Inr ([9 :: int, 0, 0], [0, - 1, - 1])),
             store_corpus =
               [\<lparr>c_page = 1, c_chunk_id = ''p1_c0'', c_text = ''the tax rate is 5''\<rparr>]\<rparr>"
  define llm :: "string \<Rightarrow> int SearchResult list \<Rightarrow> py_error + string" where
    "llm = (\<lambda>q rs. Inr ''summary'')"
  define fmt :: "int \<Rightarrow> string" where "fmt = (\<lambda>s. ''0.900'')"
  define reqs where "reqs = [\<lparr>req_session_id = ''s1'', req_question = ''What is the tax rate?'',
                 req_top_k = None, req_use_llm = False\<rparr>,
                \<lparr>req_session_id = ''s1'', req_question = ''what about it?'',
                 req_top_k = Some 2, req_use_llm = True\<rparr>]"
  define R where "R = run_queries (ask settings llm fmt ''...'' (Some retr)) ConversationMemory_init reqs"
  define calls :: "(string \<times> string \<times> int \<times> bool) list" where
    "calls = [(''s1'', ''What is the tax rate?'', 3, False), (''s1'', ''what about it?'', 3, False)]"
  define R2 where "R2 = run_queries (\<lambda>cb (s, q, k, llm'). answer settings llm fmt ''...'' cb s q k llm')
      \<lparr>bot_retriever = retr, bot_memory = ConversationMemory_init\<rparr> calls"
  note defs = R_def R2_def settings_def retr_def llm_def fmt_def reqs_def calls_def
  have ok: "\<forall>out\<in>set (fst R). \<not> isl out"
    unfolding defs by code_simp
  have ok2: "\<forall>out\<in>set (fst R2). \<not> isl out"
    unfolding defs by code_simp
  have ctx: "fst (contextualize (snd (ask settings llm fmt ''...'' (Some retr)
        ConversationMemory_init (hd reqs))) ''s1'' ''what about it?'')
         = ''what about it? (context: tax)''"
    unfolding defs by code_simp
  have both: "(run_queries (ask settings llm fmt ''...'' (Some retr)) ConversationMemory_init reqs
        = (fst R, snd R) \<longrightarrow>
      (\<forall>out\<in>set (fst R). \<not> isl out) \<longrightarrow>
      stores_questions ConversationMemory_init (snd R)
        (map (\<lambda>r. (req_session_id r, req_question r)) reqs) ''s1'') \<and>
     (run_queries (\<lambda>cb (s, q, k, llm'). answer settings llm fmt ''...'' cb s q k llm')
        \<lparr>bot_retriever = retr, bot_memory = ConversationMemory_init\<rparr> calls = (fst R2, snd R2) \<longrightarrow>
      (\<forall>out\<in>set (fst R2). \<not> isl out) \<longrightarrow>
      stores_questions (bot_memory \<lparr>bot_retriever = retr, bot_memory = ConversationMemory_init\<rparr>)
        (bot_memory (snd R2)) (map (\<lambda>(s, q, k, llm'). (s, q)) calls) ''s1'')"
    by (rule memory_stores_original_questions)
  have e1: "run_queries (ask settings llm fmt ''...'' (Some retr)) ConversationMemory_init reqs
      = (fst R, snd R)"
    unfolding R_def by (simp only: prod.collapse)
  have e2: "run_queries (\<lambda>cb (s, q, k, llm'). answer settings llm fmt ''...'' cb s q k llm')
      \<lparr>bot_retriever = retr, bot_memory = ConversationMemory_init\<rparr> calls = (fst R2, snd R2)"
    unfolding R2_def by (simp only: prod.collapse)
  have s1: "stores_questions ConversationMemory_init (snd R)
      (map (\<lambda>r. (req_session_id r, req_question r)) reqs) ''s1''"
    by (rule both [THEN conjunct1, THEN mp, THEN mp, OF e1 ok])
  have "stores_questions (bot_memory \<lparr>bot_retriever = retr, bot_memory = ConversationMemory_init\<rparr>)
      (bot_memory (snd R2)) (map (\<lambda>(s, q, k, llm'). (s, q)) calls) ''s1''"
    by (rule both [THEN conjunct2, THEN mp, THEN mp, OF e2 ok2])
  then have s2: "stores_questions ConversationMemory_init (bot_memory (snd R2))
      (map (\<lambda>(s, q, k, llm'). (s, q)) calls) ''s1''"
    by (simp only: Chatbot.simps)
  have init: "session_state ConversationMemory_init ''s1'' = SessionState_init"
    by (simp add: session_state_def ConversationMemory_init_def)
  have q1: "questions_of (map (\<lambda>r. (req_session_id r, req_question r)) reqs) ''s1'' =
      [''What is the tax rate?'', ''what about it?'']"
    unfolding reqs_def by (simp add: questions_of_def)
  have q2: "questions_of (map (\<lambda>(s, q, k, llm'). (s, q)) calls) ''s1'' =
      [''What is the tax rate?'', ''what about it?'']"
    unfolding calls_def by (simp add: questions_of_def)
  have t: "map infer_topic [''What is the tax rate?'', ''what about it?''] = [''tax'', ''what about'']"
    by code_simp
  have h1: "history (session_state (snd R) ''s1'') = [''What is the tax rate?'', ''what about it?''] \<and>
       last_user_question (session_state (snd R) ''s1'') = ''what about it?'' \<and>
       last_topic (session_state (snd R) ''s1'') = ''what about''"
    using s1 unfolding stores_questions_def q1 init t Let_def
    by (simp add: SessionState_init_def)
  have h2: "history (session_state (bot_memory (snd R2)) ''s1'')
         = [''What is the tax rate?'', ''what about it?'']"
    using s2 unfolding stores_questions_def q2 init Let_def
    by (simp add: SessionState_init_def)
  show ?thesis
    apply (unfold Let_def)
    apply (intro conjI)
    subgoal by (rule ok [unfolded defs])
    subgoal by (rule ctx [unfolded defs])
    subgoal by (rule h1 [THEN conjunct1, unfolded defs])
    subgoal by (rule h1 [THEN conjunct2, THEN conjunct1, unfolded defs])
    subgoal by (rule h1 [THEN conjunct2, THEN conjunct2, unfolded defs])
    subgoal by (rule ok2 [unfolded defs])
    subgoal by (rule h2 [unfolded defs])
    done
qed

section \<open>The corpus\<close>

lemma lstrip_hd: "lstrip s \<noteq> [] \<Longrightarrow> \<not> py_isspace (hd (lstrip s))"
  unfolding lstrip_def by (rule hd_dropWhile)

lemma rstrip_last: "rstrip s \<noteq> [] \<Longrightarrow> \<not> py_isspace (last (rstrip s))"
  using hd_dropWhile [of py_isspace "rev s"]
  by (simp add: rstrip_def last_rev)

lemma rstrip_hd: "rstrip s \<noteq> [] \<Longrightarrow> hd (rstrip s) = hd s"
  using rstrip_decomp [of s] by (metis hd_append2)

lemma rstrip_Nil: "s = [] \<Longrightarrow> rstrip s = []"
  by (simp add: rstrip_def)

lemma strip_trimmed:
  "strip s = [] \<or> (\<not> py_isspace (hd (strip s)) \<and> \<not> py_isspace (last (strip s)))"
proof (cases "strip s = []")
  case True
  then show ?thesis by simp
next
  case False
  then have ne: "rstrip (lstrip s) \<noteq> []" by (simp add: strip_def)
  then have "lstrip s \<noteq> []" using rstrip_Nil by blast
  then have "\<not> py_isspace (hd (lstrip s))" by (rule lstrip_hd)
  then have "\<not> py_isspace (hd (strip s))"
    using rstrip_hd [OF ne] by (simp add: strip_def)
  moreover have "\<not> py_isspace (last (strip s))"
    using rstrip_last [OF ne] by (simp add: strip_def)
  ultimately show ?thesis by simp
qed

lemma strip_fixed:
  assumes "t = [] \<or> (\<not> py_isspace (hd t) \<and> \<not> py_isspace (last t))"
  shows "strip t = t"
proof (cases "t = []")
  case True
  then show ?thesis by (simp add: strip_def lstrip_def rstrip_def)
next
  case False
  with assms have h: "\<not> py_isspace (hd t)" and l: "\<not> py_isspace (last t)" by simp_all
  from False h have "lstrip t = t"
    by (cases t) (simp_all add: lstrip_def)
  moreover from False l have "rstrip t = t"
    by (cases "rev t") (simp_all add: rstrip_def last_rev [symmetric] hd_rev)
  ultimately show ?thesis by (simp add: strip_def)
qed

lemma strip_idem: "strip (strip s) = strip s"
  using strip_trimmed [of s] by (rule strip_fixed)

lemma chunk_text_returns:
  assumes "0 < cs" "0 \<le> ov" "ov < cs"
  shows "\<exists>chunks. chunk_text doc cs ov = Some chunks"
  using chunk_loop_windows [OF assms, of 0 doc "[]"] by (simp add: chunk_text_def)

lemma make_chunk_text: "c_text (make_chunk p ic) = strip (snd ic)"
  by (cases ic) (simp add: make_chunk_def)

lemma lstrip_empty_iff: "lstrip w = [] \<longleftrightarrow> (\<forall>ch\<in>set w. py_isspace ch)"
  by (simp add: lstrip_def dropWhile_eq_Nil_conv)

lemma rstrip_empty_iff: "rstrip w = [] \<longleftrightarrow> (\<forall>ch\<in>set w. py_isspace ch)"
  by (simp add: rstrip_def dropWhile_eq_Nil_conv)

lemma strip_empty_iff: "strip w = [] \<longleftrightarrow> (\<forall>ch\<in>set w. py_isspace ch)"
proof
  assume "strip w = []"
  then have "\<forall>ch\<in>set (lstrip w). py_isspace ch"
    by (simp add: strip_def rstrip_empty_iff)
  then have "lstrip w = []"
    using lstrip_hd [of w] by (cases "lstrip w") auto
  then show "\<forall>ch\<in>set w. py_isspace ch"
    by (simp add: lstrip_empty_iff)
next
  assume "\<forall>ch\<in>set w. py_isspace ch"
  then have "lstrip w = []" by (simp add: lstrip_empty_iff)
  then show "strip w = []" by (simp add: strip_def rstrip_Nil)
qed

lemma build_corpus_loop_eq:
  assumes "0 < cs" "0 \<le> ov" "ov < cs"
  shows "build_corpus_loop pages cs ov acc =
     Some (acc @ concat (map (\<lambda>p. map (make_chunk p)
                                   (enumerate 0 (the (chunk_text (p_text p) cs ov)))) pages))"
proof (induction pages arbitrary: acc)
  case Nil
  then show ?case by simp
next
  case (Cons p ps)
  obtain chunks where ch: "chunk_text (p_text p) cs ov = Some chunks"
    using chunk_text_returns [OF assms] by blast
  show ?case
    by (simp add: ch Cons.IH)
qed

lemma in_corpus_iff:
  assumes "0 < cs" "0 \<le> ov" "ov < cs"
  shows "c \<in> set (concat (map (\<lambda>p. map (make_chunk p)
                                   (enumerate 0 (the (chunk_text (p_text p) cs ov)))) pages)) \<longleftrightarrow>
     (\<exists>p\<in>set pages. \<exists>chunks idx. chunk_text (p_text p) cs ov = Some chunks \<and>
        idx < length chunks \<and> c = make_chunk p (idx, chunks ! idx))"
proof
  assume "c \<in> set (concat (map (\<lambda>p. map (make_chunk p)
                                   (enumerate 0 (the (chunk_text (p_text p) cs ov)))) pages))"
  then obtain p ic where p: "p \<in> set pages"
    and ic: "ic \<in> set (enumerate 0 (the (chunk_text (p_text p) cs ov)))"
    and c: "c = make_chunk p ic"
    by auto
  obtain chunks where ch: "chunk_text (p_text p) cs ov = Some chunks"
    using chunk_text_returns [OF assms] by blast
  from ic ch have "fst ic < length chunks \<and> snd ic = chunks ! fst ic"
    by (simp add: in_set_enumerate_eq)
  then have "fst ic < length chunks \<and> c = make_chunk p (fst ic, chunks ! fst ic)"
    using c by (metis prod.collapse)
  with p ch show "\<exists>p\<in>set pages. \<exists>chunks idx. chunk_text (p_text p) cs ov = Some chunks \<and>
        idx < length chunks \<and> c = make_chunk p (idx, chunks ! idx)"
    by blast
next
  assume "\<exists>p\<in>set pages. \<exists>chunks idx. chunk_text (p_text p) cs ov = Some chunks \<and>
        idx < length chunks \<and> c = make_chunk p (idx, chunks ! idx)"
  then obtain p chunks idx where p: "p \<in> set pages"
    and ch: "chunk_text (p_text p) cs ov = Some chunks"
    and idx: "idx < length chunks" and c: "c = make_chunk p (idx, chunks ! idx)"
    by blast
  have "(idx, chunks ! idx) \<in> set (enumerate 0 (the (chunk_text (p_text p) cs ov)))"
    using idx ch by (simp add: in_set_enumerate_eq)
  with p c show "c \<in> set (concat (map (\<lambda>p. map (make_chunk p)
                                   (enumerate 0 (the (chunk_text (p_text p) cs ov)))) pages))"
    by auto
qed

text \<open>
  Claim C6, as the code has it. For valid \<open>chunk_size\<close> and \<open>overlap\<close>, \<open>build_corpus\<close>
  returns, every chunk of the corpus carries the text of one window of its page,
  stripped, and every window of every page gives such a chunk. The text of a chunk is
  therefore trimmed: stripping it changes nothing, and it is empty or begins and ends
  with a character that is not white space. It is empty exactly when its window holds
  white space only.
\<close>

theorem build_corpus_trimmed:
  assumes "0 < chunk_size" "0 \<le> overlap" "overlap < chunk_size"
  shows "\<exists>corpus. build_corpus pages chunk_size overlap = Some corpus \<and>
     (\<forall>c\<in>set corpus. \<exists>p\<in>set pages. \<exists>chunks idx.
        chunk_text (p_text p) chunk_size overlap = Some chunks \<and> idx < length chunks \<and>
        c_page c = p_page p \<and>
        c_text c = strip (chunks ! idx) \<and>
        strip (c_text c) = c_text c \<and>
        (c_text c = [] \<or> (\<not> py_isspace (hd (c_text c)) \<and> \<not> py_isspace (last (c_text c)))) \<and>
        (c_text c = [] \<longleftrightarrow> (\<forall>ch\<in>set (chunks ! idx). py_isspace ch))) \<and>
     (\<forall>p\<in>set pages. \<forall>chunks. chunk_text (p_text p) chunk_size overlap = Some chunks \<longrightarrow>
        (\<forall>idx<length chunks. \<exists>c\<in>set corpus.
           c_page c = p_page p \<and> c_text c = strip (chunks ! idx)))"
proof -
  define corpus where "corpus = concat (map (\<lambda>p. map (make_chunk p)
      (enumerate 0 (the (chunk_text (p_text p) chunk_size overlap)))) pages)"
  have ret: "build_corpus pages chunk_size overlap = Some corpus"
    using build_corpus_loop_eq [OF assms, of pages "[]"]
    by (simp add: build_corpus_def corpus_def)
  have mem: "c \<in> set corpus \<longleftrightarrow>
     (\<exists>p\<in>set pages. \<exists>chunks idx. chunk_text (p_text p) chunk_size overlap = Some chunks \<and>
        idx < length chunks \<and> c = make_chunk p (idx, chunks ! idx))" for c
    unfolding corpus_def by (rule in_corpus_iff [OF assms])
  have fields: "c_page (make_chunk p (idx, w)) = p_page p \<and>
      c_text (make_chunk p (idx, w)) = strip w \<and>
      strip (c_text (make_chunk p (idx, w))) = c_text (make_chunk p (idx, w)) \<and>
      (c_text (make_chunk p (idx, w)) = [] \<or>
        (\<not> py_isspace (hd (c_text (make_chunk p (idx, w)))) \<and>
         \<not> py_isspace (last (c_text (make_chunk p (idx, w)))))) \<and>
      (c_text (make_chunk p (idx, w)) = [] \<longleftrightarrow> (\<forall>ch\<in>set w. py_isspace ch))" for p idx w
    using strip_trimmed [of w]
    by (simp add: make_chunk_def strip_idem strip_empty_iff)
  have every: "\<forall>c\<in>set corpus. \<exists>p\<in>set pages. \<exists>chunks idx.
        chunk_text (p_text p) chunk_size overlap = Some chunks \<and> idx < length chunks \<and>
        c_page c = p_page p \<and>
        c_text c = strip (chunks ! idx) \<and>
        strip (c_text c) = c_text c \<and>
        (c_text c = [] \<or> (\<not> py_isspace (hd (c_text c)) \<and> \<not> py_isspace (last (c_text c)))) \<and>
        (c_text c = [] \<longleftrightarrow> (\<forall>ch\<in>set (chunks ! idx). py_isspace ch))"
  proof
    fix c assume "c \<in> set corpus"
    then obtain p chunks idx where p: "p \<in> set pages"
      and ch: "chunk_text (p_text p) chunk_size overlap = Some chunks"
      and idx: "idx < length chunks" and c: "c = make_chunk p (idx, chunks ! idx)"
      using mem by blast
    show "\<exists>p\<in>set pages. \<exists>chunks idx.
        chunk_text (p_text p) chunk_size overlap = Some chunks \<and> idx < length chunks \<and>
        c_page c = p_page p \<and>
        c_text c = strip (chunks ! idx) \<and>
        strip (c_text c) = c_text c \<and>
        (c_text c = [] \<or> (\<not> py_isspace (hd (c_text c)) \<and> \<not> py_isspace (last (c_text c)))) \<and>
        (c_text c = [] \<longleftrightarrow> (\<forall>ch\<in>set (chunks ! idx). py_isspace ch))"
      using p ch idx fields [of p idx "chunks ! idx"] unfolding c by blast
  qed
  have all: "\<forall>p\<in>set pages. \<forall>chunks. chunk_text (p_text p) chunk_size overlap = Some chunks \<longrightarrow>
        (\<forall>idx<length chunks. \<exists>c\<in>set corpus.
           c_page c = p_page p \<and> c_text c = strip (chunks ! idx))"
  proof (intro ballI allI impI)
    fix p chunks idx
    assume p: "p \<in> set pages" and ch: "chunk_text (p_text p) chunk_size overlap = Some chunks"
      and idx: "idx < length chunks"
    then have "make_chunk p (idx, chunks ! idx) \<in> set corpus"
      using mem by blast
    then show "\<exists>c\<in>set corpus. c_page c = p_page p \<and> c_text c = strip (chunks ! idx)"
      using fields [of p idx "chunks ! idx"] by blast
  qed
  show ?thesis
    by (intro exI [of _ corpus] conjI ret every all)
qed

theorem build_corpus_trimmed_witness:
  "\<exists>corpus. build_corpus [\<lparr>p_page = 3, p_text = ''ab      cd''\<rparr>] 4 1 = Some corpus \<and>
     chunk_text ''ab      cd'' 4 1 = Some [''ab  '', ''    '', ''  cd''] \<and>
     corpus = [\<lparr>c_page = 3, c_chunk_id = ''p3_c0'', c_text = ''ab''\<rparr>,
               \<lparr>c_page = 3, c_chunk_id = ''p3_c1'', c_text = []\<rparr>,
               \<lparr>c_page = 3, c_chunk_id = ''p3_c2'', c_text = ''cd''\<rparr>] \<and>
     (\<forall>c\<in>set corpus. \<exists>chunks idx.
        chunk_text ''ab      cd'' 4 1 = Some chunks \<and> idx < length chunks \<and>
        c_text c = strip (chunks ! idx) \<and>
        (c_text c = [] \<longleftrightarrow> (\<forall>ch\<in>set (chunks ! idx). py_isspace ch)))"
proof -
  have pre: "(0::int) < 4" "(0::int) \<le> 1" "(1::int) < 4"
    by simp_all
  have win: "chunk_text ''ab      cd'' 4 1 = Some [''ab  '', ''    '', ''  cd'']"
    by code_simp
  have val: "build_corpus [\<lparr>p_page = 3, p_text = ''ab      cd''\<rparr>] 4 1 =
      Some [\<lparr>c_page = 3, c_chunk_id = ''p3_c0'', c_text = ''ab''\<rparr>,
            \<lparr>c_page = 3, c_chunk_id = ''p3_c1'', c_text = []\<rparr>,
            \<lparr>c_page = 3, c_chunk_id = ''p3_c2'', c_text = ''cd''\<rparr>]"
    by code_simp
  from build_corpus_trimmed [OF pre, of "[\<lparr>p_page = 3, p_text = ''ab      cd''\<rparr>]"]
  obtain corpus where
    h1: "build_corpus [\<lparr>p_page = 3, p_text = ''ab      cd''\<rparr>] 4 1 = Some corpus" and
    h2: "\<forall>c\<in>set corpus. \<exists>p\<in>set [\<lparr>p_page = 3, p_text = ''ab      cd''\<rparr>]. \<exists>chunks idx.
        chunk_text (p_text p) 4 1 = Some chunks \<and> idx < length chunks \<and>
        c_page c = p_page p \<and>
        c_text c = strip (chunks ! idx) \<and>
        strip (c_text c) = c_text c \<and>
        (c_text c = [] \<or> (\<not> py_isspace (hd (c_text c)) \<and> \<not> py_isspace (last (c_text c)))) \<and>
        (c_text c = [] \<longleftrightarrow> (\<forall>ch\<in>set (chunks ! idx). py_isspace ch))"
    by (elim exE conjE)
  have h3: "\<forall>c\<in>set corpus. \<exists>chunks idx.
        chunk_text ''ab      cd'' 4 1 = Some chunks \<and> idx < length chunks \<and>
        c_text c = strip (chunks ! idx) \<and>
        (c_text c = [] \<longleftrightarrow> (\<forall>ch\<in>set (chunks ! idx). py_isspace ch))"
  proof
    fix c assume "c \<in> set corpus"
    with h2 obtain p chunks idx where
      "p \<in> set [\<lparr>p_page = 3, p_text = ''ab      cd''\<rparr>]"
      "chunk_text (p_text p) 4 1 = Some chunks" "idx < length chunks"
      "c_text c = strip (chunks ! idx)"
      "c_text c = [] \<longleftrightarrow> (\<forall>ch\<in>set (chunks ! idx). py_isspace ch)"
      by blast
    then show "\<exists>chunks idx.
        chunk_text ''ab      cd'' 4 1 = Some chunks \<and> idx < length chunks \<and>
        c_text c = strip (chunks ! idx) \<and>
        (c_text c = [] \<longleftrightarrow> (\<forall>ch\<in>set (chunks ! idx). py_isspace ch))"
      by auto
  qed
  from h1 val have h4: "corpus = [\<lparr>c_page = 3, c_chunk_id = ''p3_c0'', c_text = ''ab''\<rparr>,
            \<lparr>c_page = 3, c_chunk_id = ''p3_c1'', c_text = []\<rparr>,
            \<lparr>c_page = 3, c_chunk_id = ''p3_c2'', c_text = ''cd''\<rparr>]"
    by (simp only: option.inject)
  show ?thesis
    by (intro exI [of _ corpus] conjI h1 win h4 h3)
qed

text \<open>
  Against claim C6 as stated: a window made of white space only gives a chunk whose
  text is empty.
\<close>

theorem build_corpus_empty_chunk:
  "build_corpus [\<lparr>p_page = 1, p_text = ''a    b''\<rparr>] 2 0 =
     Some [\<lparr>c_page = 1, c_chunk_id = ''p1_c0'', c_text = ''a''\<rparr>,
           \<lparr>c_page = 1, c_chunk_id = ''p1_c1'', c_text = []\<rparr>,
           \<lparr>c_page = 1, c_chunk_id = ''p1_c2'', c_text = ''b''\<rparr>]"
  by code_simp

section \<open>Retrieval\<close>

lemma search_loop_length:
  "search_loop corpus pairs acc = Inr results \<Longrightarrow>
     length results = length acc + length (filter (\<lambda>i. i \<noteq> - 1) (map fst pairs))"
proof (induction corpus pairs acc rule: search_loop.induct)
  case (1 corpus results)
  then show ?case by simp
next
  case (2 corpus i score rest acc)
  then show ?case
    by (auto split: if_splits sum.splits)
qed

lemma search_loop_returns:
  "\<forall>i\<in>set (map fst pairs). i = - 1 \<or> (0 \<le> i \<and> i < int (length corpus)) \<Longrightarrow>
     \<exists>results. search_loop corpus pairs acc = Inr results"
proof (induction corpus pairs acc rule: search_loop.induct)
  case (1 corpus results)
  then show ?case by simp
next
  case (2 corpus i score rest acc)
  then show ?case
    by (auto simp: py_index_def Let_def)
qed

lemma distinct_positions_bound:
  assumes "distinct xs" "\<forall>i\<in>set xs. 0 \<le> i \<and> i < int n"
  shows "length xs \<le> n"
proof -
  have "set xs \<subseteq> {0..<int n}" using assms(2) by auto
  then have "card (set xs) \<le> card {0..<int n}"
    by (intro card_mono) simp_all
  then show ?thesis using assms(1) by (simp add: distinct_card)
qed

text \<open>
  Claim C7. Let \<open>k \<ge> 1\<close>, and let the vector index keep its contract: it returns at most
  \<open>k\<close> slots, as many scores as positions, and the positions that are not the marker
  \<open>-1\<close> are distinct positions of the corpus. Then \<open>search\<close> returns one result for each
  position that is not the marker, so at most \<open>k\<close> of them and at most as many as the
  corpus has chunks.
\<close>

theorem search_top_k_bound:
  assumes "1 \<le> k"
    and "index_search self (model_encode self query) k = Inr (scores, idxs)"
    and "length idxs \<le> nat k"
    and "length scores = length idxs"
    and "\<forall>i\<in>set idxs. i = - 1 \<or> (0 \<le> i \<and> i < int (length (store_corpus self)))"
    and "distinct (filter (\<lambda>i. i \<noteq> - 1) idxs)"
  shows "\<exists>results. search settings self query (Some k) = Inr results \<and>
           length results = length (filter (\<lambda>i. i \<noteq> - 1) idxs) \<and>
           length results \<le> nat k \<and>
           length results \<le> length (store_corpus self)"
proof -
  have fst_zip: "map fst (zip idxs scores) = idxs"
    using assms(4) by simp
  have unf: "search settings self query (Some k) =
      search_loop (store_corpus self) (zip idxs scores) []"
    using assms(1,2) by (simp add: search_def int_or_def)
  obtain results where r: "search_loop (store_corpus self) (zip idxs scores) [] = Inr results"
    using search_loop_returns [of "zip idxs scores" "store_corpus self" "[]"] assms(5) fst_zip
    by auto
  have len: "length results = length (filter (\<lambda>i. i \<noteq> - 1) idxs)"
    using search_loop_length [OF r] fst_zip by simp
  have "length (filter (\<lambda>i. i \<noteq> - 1) idxs) \<le> length idxs"
    by simp
  then have le_k: "length results \<le> nat k"
    using len assms(3) by linarith
  have "\<forall>i\<in>set (filter (\<lambda>i. i \<noteq> - 1) idxs). 0 \<le> i \<and> i < int (length (store_corpus self))"
    using assms(5) by auto
  then have "length (filter (\<lambda>i. i \<noteq> - 1) idxs) \<le> length (store_corpus self)"
    using assms(6) by (rule distinct_positions_bound [rotated])
  then show ?thesis using unf r len le_k by simp
qed

theorem search_top_k_bound_witness:
  "\<exists>results.
     search \<lparr>CHUNK_SIZE = 1000, CHUNK_OVERLAP = 200, TOP_K = 3\<rparr>
       \<lparr>model_encode = (\<lambda>q. length q),
        index_search = (\<lambda>v k. Inr ([9 :: int, 5, 0], [1, 0, - 1])),
        store_corpus = [\<lparr>c_page = 1, c_chunk_id = ''p1_c0'', c_text = ''fiscal policy''\<rparr>,
                        \<lparr>c_page = 2, c_chunk_id = ''p2_c0'', c_text = ''tax revenue''\<rparr>]\<rparr>
       ''tax'' (Some 3) = Inr results \<and>
     length results = 2 \<and> length results \<le> nat 3"
  using search_top_k_bound
    [of 3 "\<lparr>model_encode = (\<lambda>q. length q),
        index_search = (\<lambda>v k. Inr ([9 :: int, 5, 0], [1, 0, - 1])),
        store_corpus = [\<lparr>c_page = 1, c_chunk_id = ''p1_c0'', c_text = ''fiscal policy''\<rparr>,
                        \<lparr>c_page = 2, c_chunk_id = ''p2_c0'', c_text = ''tax revenue''\<rparr>]\<rparr>"
       "''tax''" "[9, 5, 0]" "[1, 0, - 1]"
       "\<lparr>CHUNK_SIZE = 1000, CHUNK_OVERLAP = 200, TOP_K = 3\<rparr>"]
  by (simp add: numeral_2_eq_2) blast

section \<open>Answers without results\<close>

text \<open>
  Claim C8. On an empty sequence of results the extractive generator returns its fixed
  message, whatever the question; the command-line chatbot, whose search found
  nothing, answers with its own fixed message.
\<close>

theorem no_relevant_information:
  "generate fmt3f ellipsis question [] = ''No relevant information found in the document.'' \<and>
   (search settings (bot_retriever cb) (fst (contextualize (bot_memory cb) sid question))
      (Some top_k) = Inr [] \<longrightarrow>
    fst (answer settings call_llm fmt3f ellipsis cb sid question top_k use_llm) =
      Inr ''I couldn't find anything relevant in the document.'')"
  by (simp add: generate_def answer_def Let_def split: prod.splits)

theorem no_relevant_information_witness:
  "search \<lparr>CHUNK_SIZE = 1000, CHUNK_OVERLAP = 200, TOP_K = 3\<rparr>
     \<lparr>model_encode = (\<lambda>q. length q),
      index_search = (\<lambda>v k. Inr ([0 :: int, 0, 0], [- 1, - 1, - 1])),
      store_corpus = []\<rparr>
     (fst (contextualize ConversationMemory_init ''s1'' ''What is the tax rate?'')) (Some 3) = Inr [] \<and>
   fst (answer \<lparr>CHUNK_SIZE = 1000, CHUNK_OVERLAP = 200, TOP_K = 3\<rparr>
          (\<lambda>q rs. Inr ''summary'') (\<lambda>s. ''0.000'') ''...''
          \<lparr>bot_retriever =
             \<lparr>model_encode = (\<lambda>q. length q),
              index_search = (\<lambda>v k. Inr ([0 :: int, 0, 0], [- 1, - 1, - 1])),
              store_corpus = []\<rparr>,
           bot_memory = ConversationMemory_init\<rparr>
          ''s1'' ''What is the tax rate?'' 3 True) =
     Inr ''I couldn't find anything relevant in the document.''"
proof -
  have s: "search \<lparr>CHUNK_SIZE = 1000, CHUNK_OVERLAP = 200, TOP_K = 3\<rparr>
     \<lparr>model_encode = (\<lambda>q. length q),
      index_search = (\<lambda>v k. Inr ([0 :: int, 0, 0], [- 1, - 1, - 1])),
      store_corpus = []\<rparr>
     (fst (contextualize ConversationMemory_init ''s1'' ''What is the tax rate?'')) (Some 3) = Inr []"
    by (simp add: search_def int_or_def)
  show ?thesis
    using s no_relevant_information
      [where fmt3f = "\<lambda>s. ''0.000''" and ellipsis = "''...''"
        and settings = "\<lparr>CHUNK_SIZE = 1000, CHUNK_OVERLAP = 200, TOP_K = 3\<rparr>"
        and cb = "\<lparr>bot_retriever =
             \<lparr>model_encode = (\<lambda>q. length q),
              index_search = (\<lambda>v k. Inr ([0 :: int, 0, 0], [- 1, - 1, - 1])),
              store_corpus = []\<rparr>,
           bot_memory = ConversationMemory_init\<rparr>"
        and sid = "''s1''" and question = "''What is the tax rate?''" and top_k = 3
        and call_llm = "\<lambda>q rs. Inr ''summary''" and use_llm = True]
    by simp
qed

section \<open>Topic inference\<close>

text \<open>
  Claim C2, as the code has it. For \<open>"What is the tax and budget policy?"\<close>, \<open>infer_topic\<close>
  returns \<open>"budget"\<close>: the first keyword of the list found in the question wins, and
  \<open>"budget"\<close> is the first keyword of the list, before \<open>"tax"\<close> and \<open>"policy"\<close>.
\<close>

theorem infer_topic_precedence:
  "infer_topic ''What is the tax and budget policy?'' = ''budget'' \<and>
   kws ! 0 = ''budget'' \<and> kws ! 3 = ''tax'' \<and> kws ! 9 = ''policy''"
  by code_simp

text \<open>Against claim C2 as stated: the result is not \<open>"tax"\<close>.\<close>

theorem infer_topic_not_tax:
  "infer_topic ''What is the tax and budget policy?'' \<noteq> ''tax''"
  by code_simp

end
